theory Spec2Isabelle
  imports Main
begin

section \<open>JavaScript values, streams and payloads\<close>

text \<open>
  The values a caller can hand to the logger as \<open>data\<close>. \<open>JArguments\<close> is the
  \<open>arguments\<close> object of a call (an ordered sequence), \<open>JObject\<close> an object literal
  as the list of its own properties in creation order.
\<close>

datatype jsval =
    JUndefined
  | JNull
  | JBool bool
  | JNum int
  | JStr string
  | JArguments "jsval list"
  | JObject "(string \<times> jsval) list"

type_synonym jsobject = "(string \<times> jsval) list"

text \<open>
  Loggers and streams are objects compared by identity (\<open>===\<close>, \<open>!==\<close>): an object is
  its address. A stream is external to the logger; what the model keeps of it is its
  identity, the sequence of \<open>write\<close> calls made on it, and whether such a call
  returns or raises.
\<close>

type_synonym ref = nat
type_synonym stream = nat

text \<open>
  Modelled from the spec: the module \<open>./levels\<close> required by Variant B of the logger
  and by \<open>consoleStream.js\<close> is not among the sources. The spec gives the
  default set \<open>{info/log = 1, warn = 2, error = 3}\<close>; Variant A of the logger
  declares the same table inline,
  \<open>var levels = { log: 1, info: 1, warn: 2, error: 3 }\<close>, in this key order.
\<close>

definition levels :: "(string \<times> int) list" where
  "levels = [(''log'', 1), (''info'', 1), (''warn'', 2), (''error'', 3)]"

text \<open>\<open>levels.log\<close> and \<open>levels.info\<close>, as the code reads them.\<close>

definition levels_log :: int where
  "levels_log = 1"

definition levels_info :: int where
  "levels_info = 1"

text \<open>The module \<open>consoleStream\<close>: one stream object, the default sink.\<close>

definition consoleStream :: stream where
  "consoleStream = 0"

text \<open>
  \<open>createPayload(name, level, data)\<close>. The object literal has the four properties
  \<open>date\<close>, \<open>level\<close>, \<open>name\<close>, \<open>data\<close>; \<open>getDate()\<close> reads the clock, whose value
  \<open>now\<close> (milliseconds since the epoch) is an input of the model.
\<close>

definition createPayload :: "string \<Rightarrow> int \<Rightarrow> jsval \<Rightarrow> int \<Rightarrow> jsobject" where
  "createPayload name level data now =
     [(''date'', JNum now), (''level'', JNum level), (''name'', JStr name), (''data'', data)]"

section \<open>Loggers and the module state\<close>

text \<open>
  The definitions of this section follow Variant B of the module (\<open>write\<close>,
  \<open>_enableAll\<close>, \<open>defaultEnabled\<close>); the filter of Variant A comes after them.
\<close>

text \<open>The fields \<open>name\<close>, \<open>_enabled\<close>, \<open>_stream\<close>, \<open>_level\<close> of a Logger object.\<close>

record logger =
  lg_name :: string
  lg_enabled :: bool
  lg_stream :: stream
  lg_level :: int

text \<open>
  The \<open>options\<close> argument of the constructor: each property may be absent.
\<close>

record options =
  opt_enabled :: "bool option"
  opt_stream :: "stream option"
  opt_level :: "int option"

text \<open>
  The module variables \<open>_only\<close>, \<open>_enableAll\<close>, \<open>_loggers\<close>, \<open>_global\<close>, the store
  of Logger objects with its allocation pointer, and the \<open>write\<close> calls made on
  the streams so far, oldest first. \<open>stream_raises\<close> is the behaviour of the
  streams, which the module does not control: whether the call \<open>write(payload)\<close> on a
  stream raises (the sink throws, or the value piped in has no \<open>write\<close> method, as
  \<open>undefined\<close> has none); no operation of the logger changes it. \<open>_only\<close> is \<open>undefined\<close> at load and \<open>null\<close>
  after \<open>all()\<close>: both are \<open>None\<close>. \<open>_enableAll\<close> is \<open>undefined\<close> at load: the
  flag is its truth value. \<open>_loggers\<close> is the map of the names registered by the
  constructor; names that \<open>Object.prototype\<close> defines are left out of the model.
  Variant A has no \<open>_enableAll\<close>; its functions do not read that field.
\<close>

record state =
  only_ref :: "ref option"
  enableAll_flag :: bool
  loggers :: "string \<rightharpoonup> ref"
  global_logger :: ref
  heap :: "ref \<rightharpoonup> logger"
  next_ref :: ref
  sink_calls :: "(stream \<times> jsobject) list"
  stream_raises :: "stream \<Rightarrow> jsobject \<Rightarrow> bool"

text \<open>
  The one exception the module can let through: the one raised by the call
  \<open>this._stream.write(payload)\<close>. No function of the module catches anything.
\<close>

datatype error = StreamWriteRaised

text \<open>\<open>Logger.prototype.defaultEnabled = false\<close>.\<close>

definition defaultEnabled :: bool where
  "defaultEnabled = False"

text \<open>
  The constructor \<open>Logger(name, options)\<close>. \<open>options || {}\<close>; a missing \<open>enabled\<close>
  becomes \<open>defaultEnabled\<close>; \<open>options.stream || consoleStream\<close>;
  \<open>options.level || levels.log\<close>, where the number 0 is falsy as a missing level is.
  The new object is stored under \<open>name\<close> in \<open>_loggers\<close>.
\<close>

definition Logger :: "string \<Rightarrow> options option \<Rightarrow> state \<Rightarrow> ref \<times> state" where
  "Logger name opts s =
     (let opts1 = (case opts of
                     None \<Rightarrow> \<lparr>opt_enabled = None, opt_stream = None, opt_level = None\<rparr>
                   | Some given \<Rightarrow> given);
          opts2 = (case opt_enabled opts1 of
                     None \<Rightarrow> opts1\<lparr>opt_enabled := Some defaultEnabled\<rparr>
                   | Some _ \<Rightarrow> opts1);
          this = next_ref s;
          obj = \<lparr>lg_name = name,
                 lg_enabled = (case opt_enabled opts2 of Some b \<Rightarrow> b | None \<Rightarrow> False),
                 lg_stream = (case opt_stream opts2 of Some st \<Rightarrow> st | None \<Rightarrow> consoleStream),
                 lg_level = (case opt_level opts2 of
                               Some n \<Rightarrow> if n = 0 then levels_log else n
                             | None \<Rightarrow> levels_log)\<rparr>
      in (this, s\<lparr>heap := (heap s)(this \<mapsto> obj),
                  next_ref := Suc this,
                  loggers := (loggers s)(name \<mapsto> this)\<rparr>))"

text \<open>\<open>create(name, options)\<close>: the registered logger if there is one, else a new one.\<close>

definition create :: "string \<Rightarrow> options option \<Rightarrow> state \<Rightarrow> ref \<times> state" where
  "create name opts s =
     (case loggers s name of
        Some existing \<Rightarrow> (existing, s)
      | None \<Rightarrow> Logger name opts s)"

text \<open>\<open>find(name)\<close>: \<open>_loggers[name]\<close>, \<open>undefined\<close> when the name is not registered.\<close>

definition find_logger :: "string \<Rightarrow> state \<Rightarrow> ref option" where
  "find_logger name s = loggers s name"

text \<open>
  A method runs on \<open>this\<close>, a live Logger. An address with no object behind it is
  not a receiver in JavaScript; the model leaves the state as it is there.
\<close>

definition update_logger :: "ref \<Rightarrow> (logger \<Rightarrow> logger) \<Rightarrow> state \<Rightarrow> state" where
  "update_logger this f s =
     (case heap s this of
        None \<Rightarrow> s
      | Some l \<Rightarrow> s\<lparr>heap := (heap s)(this \<mapsto> f l)\<rparr>)"

text \<open>\<open>pipe(stream)\<close>: replaces a different stream; returns its argument.\<close>

definition pipe :: "ref \<Rightarrow> stream \<Rightarrow> state \<Rightarrow> stream \<times> state" where
  "pipe this st s =
     (st, case heap s this of
            None \<Rightarrow> s
          | Some l \<Rightarrow> if st \<noteq> lg_stream l
                      then update_logger this (\<lambda>l. l\<lparr>lg_stream := st\<rparr>) s
                      else s)"

text \<open>
  \<open>isEnabled(level)\<close> of Variant B:
  \<open>(_enableAll || this._enabled) && (this._level <= level) && (!_only || _only === this)\<close>.
  The last conjunct is a boolean, so the JavaScript value is \<open>true\<close> exactly when
  all three conjuncts are truthy.
\<close>

definition isEnabled :: "state \<Rightarrow> ref \<Rightarrow> int \<Rightarrow> bool" where
  "isEnabled s this level =
     (case heap s this of
        None \<Rightarrow> False
      | Some l \<Rightarrow>
          (enableAll_flag s \<or> lg_enabled l) \<and>
          (lg_level l \<le> level) \<and>
          (only_ref s = None \<or> only_ref s = Some this))"

text \<open>\<open>level || levels.info\<close>: an omitted level and the level 0 are both falsy.\<close>

definition level_or_info :: "int option \<Rightarrow> int" where
  "level_or_info level =
     (case level of
        None \<Rightarrow> levels_info
      | Some n \<Rightarrow> if n = 0 then levels_info else n)"

text \<open>
  \<open>write(level, data)\<close>: when \<open>isEnabled\<close> says so, the one call
  \<open>this._stream.write(createPayload(this.name, level, data))\<close>; then \<open>return this\<close>.
  When the call raises, the exception leaves \<open>write\<close> and \<open>return this\<close> is not
  reached: the outcome is the error, after the call has been made.
\<close>

definition logger_write ::
  "ref \<Rightarrow> int option \<Rightarrow> jsval \<Rightarrow> int \<Rightarrow> state \<Rightarrow> (error + ref) \<times> state" where
  "logger_write this level data now s =
     (let lv = level_or_info level
      in if isEnabled s this lv
         then (case heap s this of
                 None \<Rightarrow> (Inr this, s)
               | Some l \<Rightarrow>
                   (let payload = createPayload (lg_name l) lv data now;
                        called = s\<lparr>sink_calls := sink_calls s @ [(lg_stream l, payload)]\<rparr>
                    in if stream_raises s (lg_stream l) payload
                       then (Inl StreamWriteRaised, called)
                       else (Inr this, called)))
         else (Inr this, s))"

text \<open>
  The methods made by \<open>Object.keys(levels).forEach\<close>: the one named \<open>key\<close> is
  \<open>function() { return this.write(levels[level], arguments); }\<close>. There is no method
  for a name that is not a key of \<open>levels\<close>.
\<close>

definition level_method ::
  "string \<Rightarrow> ref \<Rightarrow> jsval list \<Rightarrow> int \<Rightarrow> state \<Rightarrow> ((error + ref) \<times> state) option" where
  "level_method key this args now s =
     (case map_of levels key of
        None \<Rightarrow> None
      | Some rank \<Rightarrow> Some (logger_write this (Some rank) (JArguments args) now s))"

definition enable :: "ref \<Rightarrow> state \<Rightarrow> ref \<times> state" where
  "enable this s = (this, update_logger this (\<lambda>l. l\<lparr>lg_enabled := True\<rparr>) s)"

definition disable :: "ref \<Rightarrow> state \<Rightarrow> ref \<times> state" where
  "disable this s = (this, update_logger this (\<lambda>l. l\<lparr>lg_enabled := False\<rparr>) s)"

text \<open>\<open>only()\<close>: \<open>if (!_only) { _only = this; }\<close>.\<close>

definition only :: "ref \<Rightarrow> state \<Rightarrow> ref \<times> state" where
  "only this s =
     (this, case only_ref s of
              None \<Rightarrow> s\<lparr>only_ref := Some this\<rparr>
            | Some _ \<Rightarrow> s)"

text \<open>\<open>all()\<close>: \<open>_only = null\<close>.\<close>

definition all :: "ref \<Rightarrow> state \<Rightarrow> ref \<times> state" where
  "all this s = (this, s\<lparr>only_ref := None\<rparr>)"

definition enableAll :: "ref \<Rightarrow> state \<Rightarrow> ref \<times> state" where
  "enableAll this s = (this, s\<lparr>enableAll_flag := True\<rparr>)"

definition disableAll :: "ref \<Rightarrow> state \<Rightarrow> ref \<times> state" where
  "disableAll this s = (this, s\<lparr>enableAll_flag := False\<rparr>)"

text \<open>\<open>level(level)\<close>: sets the threshold.\<close>

definition level :: "ref \<Rightarrow> int \<Rightarrow> state \<Rightarrow> ref \<times> state" where
  "level this n s = (this, update_logger this (\<lambda>l. l\<lparr>lg_level := n\<rparr>) s)"

text \<open>
  Loading the module: empty registry, then \<open>var _global = new Logger('global')\<close>.
  Here every stream accepts every call; \<open>s\<lparr>stream_raises := f\<rparr>\<close> is the same
  state among streams that behave as \<open>f\<close> says.
\<close>

definition empty_state :: state where
  "empty_state =
     \<lparr>only_ref = None, enableAll_flag = False, loggers = Map.empty, global_logger = 0,
      heap = Map.empty, next_ref = 0, sink_calls = [],
      stream_raises = (\<lambda>st payload. False)\<rparr>"

definition init_state :: state where
  "init_state =
     (let (g, s) = Logger ''global'' None empty_state
      in s\<lparr>global_logger := g\<rparr>)"

section \<open>Variant A\<close>

text \<open>
  \<open>isEnabled(level)\<close> of Variant A, where the process-wide flag and the
  process-wide threshold are the fields of the logger \<open>_global\<close>:
  \<open>if (!_global._enabled) return false;\<close> then
  \<open>this._enabled && (_global._level <= level || this._level <= level) &&
   (!_only || _only === this)\<close>.
\<close>

definition isEnabled_A :: "state \<Rightarrow> ref \<Rightarrow> int \<Rightarrow> bool" where
  "isEnabled_A s this lvl =
     (case heap s (global_logger s) of
        None \<Rightarrow> False
      | Some g \<Rightarrow>
          if \<not> lg_enabled g then False
          else (case heap s this of
                  None \<Rightarrow> False
                | Some l \<Rightarrow>
                    lg_enabled l \<and>
                    (lg_level g \<le> lvl \<or> lg_level l \<le> lvl) \<and>
                    (only_ref s = None \<or> only_ref s = Some this)))"

text \<open>\<open>enableAll()\<close> and \<open>disableAll()\<close> of Variant A set \<open>_global._enabled\<close>.\<close>

definition enableAll_A :: "ref \<Rightarrow> state \<Rightarrow> ref \<times> state" where
  "enableAll_A this s =
     (this, update_logger (global_logger s) (\<lambda>l. l\<lparr>lg_enabled := True\<rparr>) s)"

definition disableAll_A :: "ref \<Rightarrow> state \<Rightarrow> ref \<times> state" where
  "disableAll_A this s =
     (this, update_logger (global_logger s) (\<lambda>l. l\<lparr>lg_enabled := False\<rparr>) s)"

section \<open>Runs of operations\<close>

text \<open>
  One call of the public interface, with its receiver and arguments. A step is the
  state the call leaves the module in, whether it returned or raised.
\<close>

datatype operation =
    Create string "options option"
  | Find string
  | Pipe ref stream
  | Write ref "int option" jsval int
  | LevelMethod string ref "jsval list" int
  | Enable ref
  | Disable ref
  | Only ref
  | All ref
  | EnableAll ref
  | DisableAll ref
  | Level ref int

fun step :: "operation \<Rightarrow> state \<Rightarrow> state" where
  "step (Create name opts) s = snd (create name opts s)"
| "step (Find name) s = s"
| "step (Pipe this st) s = snd (pipe this st s)"
| "step (Write this lv data now) s = snd (logger_write this lv data now s)"
| "step (LevelMethod key this args now) s =
     (case level_method key this args now s of None \<Rightarrow> s | Some r \<Rightarrow> snd r)"
| "step (Enable this) s = snd (enable this s)"
| "step (Disable this) s = snd (disable this s)"
| "step (Only this) s = snd (only this s)"
| "step (All this) s = snd (all this s)"
| "step (EnableAll this) s = snd (enableAll this s)"
| "step (DisableAll this) s = snd (disableAll this s)"
| "step (Level this n) s = snd (level this n s)"

fun run :: "operation list \<Rightarrow> state \<Rightarrow> state" where
  "run [] s = s"
| "run (x # xs) s = run xs (step x s)"

text \<open>
  Every object of the store lies below the allocation pointer, so the constructor
  never reuses the address of a live logger.
\<close>

definition wf_state :: "state \<Rightarrow> bool" where
  "wf_state s = (\<forall>r. heap s r \<noteq> None \<longrightarrow> r < next_ref s)"

section \<open>Payload shape and a sample configuration\<close>




text \<open>
  The module after
  \<open>create('a', {enabled: true, stream: s1, level: 2}); create('b', {enabled: true})\<close>:
  \<open>global\<close> is object 0, \<open>a\<close> object 1 on stream 1, \<open>b\<close> object 2 on the console.
\<close>

definition two_loggers :: state where
  "two_loggers =
     run [Create ''a'' (Some \<lparr>opt_enabled = Some True, opt_stream = Some 1, opt_level = Some 2\<rparr>),
          Create ''b'' (Some \<lparr>opt_enabled = Some True, opt_stream = None, opt_level = None\<rparr>)]
       init_state"

text \<open>
  The same configuration where stream 1, the stream of \<open>a\<close>, raises on every
  \<open>write\<close> call and every other stream accepts.
\<close>

definition stream_one_raises :: "stream \<Rightarrow> jsobject \<Rightarrow> bool" where
  "stream_one_raises st payload = (st = 1)"

definition two_loggers_raising :: state where
  "two_loggers_raising = two_loggers\<lparr>stream_raises := stream_one_raises\<rparr>"

section \<open>Frame lemmas\<close>

lemmas load_defs =
  init_state_def empty_state_def Logger_def defaultEnabled_def consoleStream_def
  levels_log_def levels_info_def update_logger_def

lemmas method_defs =
  create_def Logger_def pipe_def logger_write_def level_method_def enable_def disable_def
  only_def all_def enableAll_def disableAll_def level_def update_logger_def

lemma wf_state_step: "wf_state s \<Longrightarrow> wf_state (step x s)"
  by (cases x) (auto simp add: wf_state_def method_defs Let_def less_Suc_eq
      split: option.splits if_splits)

lemma wf_state_run: "wf_state s \<Longrightarrow> wf_state (run xs s)"
  by (induction xs arbitrary: s) (simp_all add: wf_state_step)

lemma wf_state_init: "wf_state init_state"
  by (simp add: wf_state_def load_defs)

lemma step_keeps_stream:
  assumes "wf_state s" and "heap s L = Some l" and "\<forall>st. x \<noteq> Pipe L st"
  shows "\<exists>l'. heap (step x s) L = Some l' \<and> lg_stream l' = lg_stream l \<and> lg_name l' = lg_name l"
  using assms
  by (cases x) (auto simp add: wf_state_def method_defs Let_def
      split: option.splits if_splits)

lemma run_keeps_stream:
  assumes "wf_state s" and "heap s L = Some l" and "\<forall>x\<in>set xs. \<forall>st. x \<noteq> Pipe L st"
  shows "\<exists>l'. heap (run xs s) L = Some l' \<and> lg_stream l' = lg_stream l \<and> lg_name l' = lg_name l"
  using assms
proof (induction xs arbitrary: s l)
  case Nil
  then show ?case by simp
next
  case (Cons x xs)
  from Cons.prems obtain l1 where l1: "heap (step x s) L = Some l1"
    "lg_stream l1 = lg_stream l" "lg_name l1 = lg_name l"
    using step_keeps_stream [of s L l x] by auto
  from Cons.IH [OF wf_state_step [OF Cons.prems(1)] l1(1)] Cons.prems(3) l1
  show ?case by simp
qed

lemma step_keeps_disabled:
  assumes "wf_state s" and "heap s L = Some l" and "\<not> lg_enabled l" and "\<not> enableAll_flag s"
    and "x \<noteq> Enable L" and "\<forall>r. x \<noteq> EnableAll r"
  shows "\<exists>l'. heap (step x s) L = Some l' \<and> \<not> lg_enabled l' \<and> \<not> enableAll_flag (step x s)"
  using assms
  by (cases x) (auto simp add: wf_state_def method_defs Let_def
      split: option.splits if_splits)

lemma run_keeps_disabled:
  assumes "wf_state s" and "heap s L = Some l" and "\<not> lg_enabled l" and "\<not> enableAll_flag s"
    and "\<forall>x\<in>set xs. x \<noteq> Enable L \<and> (\<forall>r. x \<noteq> EnableAll r)"
  shows "\<exists>l'. heap (run xs s) L = Some l' \<and> \<not> lg_enabled l' \<and> \<not> enableAll_flag (run xs s)"
  using assms
proof (induction xs arbitrary: s l)
  case Nil
  then show ?case by simp
next
  case (Cons x xs)
  from Cons.prems obtain l1 where l1: "heap (step x s) L = Some l1"
    "\<not> lg_enabled l1" "\<not> enableAll_flag (step x s)"
    using step_keeps_disabled [of s L l x] by auto
  from Cons.IH [OF wf_state_step [OF Cons.prems(1)] l1] Cons.prems(5)
  show ?case by simp
qed

lemma create_twice:
  "create n opts2 (snd (create n opts1 s)) = (fst (create n opts1 s), snd (create n opts1 s))"
  by (simp add: create_def Logger_def Let_def split: option.splits)

lemma step_keeps_registered:
  assumes "loggers s n = Some L"
  shows "loggers (step x s) n = Some L"
  using assms
  by (cases x) (auto simp add: method_defs Let_def split: option.splits if_splits)

lemma run_keeps_registered:
  assumes "loggers s n = Some L"
  shows "loggers (run xs s) n = Some L"
  using assms by (induction xs arbitrary: s) (simp_all add: step_keeps_registered)





lemma levels_lookup:
  assumes "(key, rank) \<in> set levels"
  shows "map_of levels key = Some rank" and "rank \<noteq> 0"
proof -
  have "distinct (map fst levels)"
    by (simp add: levels_def)
  then show "map_of levels key = Some rank"
    using assms by (rule map_of_is_SomeI)
  have "\<forall>e\<in>set levels. snd e \<noteq> 0"
    by (simp add: levels_def)
  then show "rank \<noteq> 0"
    using assms by fastforce
qed

lemma level_method_defined_iff:
  "level_method key L args now s = None \<longleftrightarrow> key \<notin> fst ` set levels"
  by (simp add: level_method_def map_of_eq_None_iff [symmetric] split: option.splits)

lemma two_loggers_heap:
  "heap two_loggers 0 =
     Some \<lparr>lg_name = ''global'', lg_enabled = False, lg_stream = 0, lg_level = 1\<rparr>"
  "heap two_loggers 1 =
     Some \<lparr>lg_name = ''a'', lg_enabled = True, lg_stream = 1, lg_level = 2\<rparr>"
  "heap two_loggers 2 =
     Some \<lparr>lg_name = ''b'', lg_enabled = True, lg_stream = 0, lg_level = 1\<rparr>"
  "heap two_loggers (Suc 0) =
     Some \<lparr>lg_name = ''a'', lg_enabled = True, lg_stream = Suc 0, lg_level = 2\<rparr>"
  by (simp_all add: two_loggers_def load_defs create_def)

lemma two_loggers_vars:
  "only_ref two_loggers = None" "enableAll_flag two_loggers = False"
  "sink_calls two_loggers = []" "next_ref two_loggers = 3"
  "loggers two_loggers ''a'' = Some 1" "loggers two_loggers ''b'' = Some 2"
  "loggers two_loggers ''global'' = Some 0" "loggers two_loggers ''svc'' = None"
  "stream_raises two_loggers st p = False"
  by (simp_all add: two_loggers_def load_defs create_def)

lemma two_loggers_raising_facts:
  "heap two_loggers_raising = heap two_loggers"
  "only_ref two_loggers_raising = None"
  "enableAll_flag two_loggers_raising = False"
  "sink_calls two_loggers_raising = []"
  "stream_raises two_loggers_raising = stream_one_raises"
  by (simp_all add: two_loggers_raising_def two_loggers_vars)

lemma wf_two_loggers: "wf_state two_loggers"
  unfolding two_loggers_def by (rule wf_state_run [OF wf_state_init])

section \<open>The filtering decision\<close>

text \<open>
  C1. In Variant B, for every logger \<open>L\<close> and every level rank \<open>v\<close>,
  \<open>isEnabled(v)\<close> is true if and only if (the process-wide enabledAll flag is set or
  \<open>L\<close>'s own enabled flag is set) and \<open>L\<close>'s threshold is at most \<open>v\<close> and (the
  exclusivity reference is unset or it refers to \<open>L\<close> itself).
\<close>

theorem isEnabled_iff:
  assumes "heap s L = Some l"
  shows "isEnabled s L v \<longleftrightarrow>
           (enableAll_flag s \<or> lg_enabled l) \<and> lg_level l \<le> v \<and>
           (only_ref s = None \<or> only_ref s = Some L)"
  using assms by (simp add: isEnabled_def)

theorem isEnabled_iff_witness:
  "heap (snd (enable 0 init_state)) 0 =
     Some \<lparr>lg_name = ''global'', lg_enabled = True, lg_stream = 0, lg_level = 1\<rparr> \<and>
   isEnabled (snd (enable 0 init_state)) 0 2 \<and>
   \<not> isEnabled (snd (enable 0 init_state)) 0 0"
proof -
  have h: "heap (snd (enable 0 init_state)) 0 =
     Some \<lparr>lg_name = ''global'', lg_enabled = True, lg_stream = 0, lg_level = 1\<rparr>"
    by (simp add: load_defs enable_def)
  have o: "only_ref (snd (enable 0 init_state)) = None"
    by (simp add: load_defs enable_def)
  show ?thesis
    using h o isEnabled_iff [OF h, of 2] isEnabled_iff [OF h, of 0] by simp
qed

text \<open>
  C2. In Variant A, for every logger \<open>L\<close> and every level rank \<open>v\<close>,
  \<open>isEnabled(v)\<close> is true if and only if the global enabled flag is set and (the
  global logger's threshold is at most \<open>v\<close> or \<open>L\<close>'s own threshold is at most \<open>v\<close>)
  and \<open>L\<close>'s own enabled flag is set and (the exclusivity reference is unset or it
  refers to \<open>L\<close> itself). The global flag and threshold are the fields of \<open>_global\<close>.
\<close>

theorem isEnabled_A_iff:
  assumes "heap s L = Some l" and "heap s (global_logger s) = Some g"
  shows "isEnabled_A s L v \<longleftrightarrow>
           lg_enabled g \<and> (lg_level g \<le> v \<or> lg_level l \<le> v) \<and> lg_enabled l \<and>
           (only_ref s = None \<or> only_ref s = Some L)"
  using assms by (auto simp add: isEnabled_A_def)

theorem isEnabled_A_iff_witness:
  "isEnabled_A (snd (enableAll_A 1 two_loggers)) 1 1 \<and> \<not> isEnabled_A two_loggers 1 3"
proof -
  let ?s = "snd (enableAll_A 1 two_loggers)"
  have g0: "global_logger two_loggers = 0"
    by (simp add: two_loggers_def load_defs create_def)
  have g: "heap ?s (global_logger ?s) =
      Some \<lparr>lg_name = ''global'', lg_enabled = True, lg_stream = 0, lg_level = 1\<rparr>"
    by (simp add: enableAll_A_def update_logger_def g0 two_loggers_heap)
  have l: "heap ?s 1 =
      Some \<lparr>lg_name = ''a'', lg_enabled = True, lg_stream = 1, lg_level = 2\<rparr>"
    by (simp add: enableAll_A_def update_logger_def g0 two_loggers_heap)
  have o: "only_ref ?s = None"
    by (simp add: enableAll_A_def update_logger_def g0 two_loggers_heap two_loggers_vars)
  have g': "heap two_loggers (global_logger two_loggers) =
      Some \<lparr>lg_name = ''global'', lg_enabled = False, lg_stream = 0, lg_level = 1\<rparr>"
    by (simp add: g0 two_loggers_heap)
  show ?thesis
    using isEnabled_A_iff [OF l g, of 1] isEnabled_A_iff [OF two_loggers_heap(2) g', of 3] o
    by simp
qed

section \<open>The registry\<close>

text \<open>
  C3. For every name \<open>n\<close> that is already registered, \<open>create(n, options2)\<close> returns
  the existing Logger and leaves the whole state as it is: the options of the second
  call are ignored and no field of the existing Logger changes. The registry entry of
  \<open>n\<close> is stable: no run of operations removes or replaces it, so a later \<open>create\<close>
  still returns the same object.
\<close>

theorem create_first_writer_wins:
  assumes "loggers s n = Some L"
  shows "create n opts2 s = (L, s) \<and>
         loggers (run xs s) n = Some L \<and>
         fst (create n opts2 (run xs s)) = L"
  using assms run_keeps_registered [OF assms, of xs] by (simp add: create_def)

theorem create_first_writer_wins_witness:
  "loggers two_loggers ''a'' = Some 1 \<and>
   create ''a'' (Some \<lparr>opt_enabled = Some False, opt_stream = Some 9, opt_level = Some 3\<rparr>)
     two_loggers = (1, two_loggers)"
  using create_first_writer_wins [of two_loggers "''a''" 1 _ "[]"] two_loggers_vars(5)
  by simp

section \<open>Exclusivity\<close>

text \<open>
  C4. For every logger \<open>L\<close>, \<open>L.only()\<close> returns \<open>L\<close> and sets the exclusivity
  reference to \<open>L\<close> if and only if no logger holds it; if a logger holds it, the call
  changes nothing (no transfer). The reference holds at most one logger, and over
  every operation it moves only as follows: \<open>only()\<close> fills an empty reference,
  \<open>all()\<close> empties it, every other operation keeps it.
\<close>

theorem only_first_claim_wins:
  "fst (only L s) = L \<and>
   (only_ref s = None \<longrightarrow> only_ref (snd (only L s)) = Some L) \<and>
   (only_ref s \<noteq> None \<longrightarrow> snd (only L s) = s) \<and>
   (only_ref (snd (only L s)) = Some L \<longleftrightarrow> only_ref s = None \<or> only_ref s = Some L) \<and>
   only_ref (step x s) =
     (case x of
        Only r \<Rightarrow> (case only_ref s of None \<Rightarrow> Some r | Some h \<Rightarrow> Some h)
      | All r \<Rightarrow> None
      | _ \<Rightarrow> only_ref s)"
  by (cases x) (auto simp add: method_defs Let_def split: option.splits if_splits)

theorem only_first_claim_wins_witness:
  "only_ref (snd (only 1 two_loggers)) = Some 1 \<and>
   snd (only 2 (snd (only 1 two_loggers))) = snd (only 1 two_loggers) \<and>
   only_ref (step (Enable 2) (snd (only 1 two_loggers))) = Some 1 \<and>
   only_ref (step (All 2) (snd (only 1 two_loggers))) = None"
  using only_first_claim_wins [of 1 two_loggers "All 2"]
    only_first_claim_wins [of 2 "snd (only 1 two_loggers)" "All 2"]
    only_first_claim_wins [of 2 "snd (only 1 two_loggers)" "Enable 2"]
    two_loggers_vars(1)
  by simp

text \<open>
  C5. While logger \<open>A\<close> holds the exclusivity reference, the filtering decision of
  every other logger \<open>B\<close> is false at every level, whatever \<open>B\<close>'s enabled flag and
  threshold, and \<open>B\<close>'s \<open>write\<close> and level methods call no stream and change nothing.
  \<open>all()\<close>, on any receiver, clears the reference and nothing else, after which the
  decision of every logger is again its flags and its threshold.
\<close>

theorem exclusivity_silences_others:
  assumes "only_ref s = Some A" and "B \<noteq> A"
  shows "\<not> isEnabled s B v \<and>
         logger_write B lv d now s = (Inr B, s) \<and>
         (\<forall>key rank. map_of levels key = Some rank \<longrightarrow>
            level_method key B args now s = Some (Inr B, s)) \<and>
         snd (all X s) = s\<lparr>only_ref := None\<rparr> \<and>
         (\<forall>Y l. heap s Y = Some l \<longrightarrow>
            (isEnabled (snd (all X s)) Y v \<longleftrightarrow>
               (enableAll_flag s \<or> lg_enabled l) \<and> lg_level l \<le> v))"
  using assms
  by (auto simp add: isEnabled_def logger_write_def level_method_def all_def
      split: option.splits)

theorem exclusivity_silences_others_witness:
  "only_ref (snd (only 1 two_loggers)) = Some 1 \<and>
   \<not> isEnabled (snd (only 1 two_loggers)) 2 3 \<and>
   logger_write 2 (Some 3) (JStr ''x'') 5 (snd (only 1 two_loggers)) =
     (Inr 2, snd (only 1 two_loggers)) \<and>
   isEnabled (snd (all 2 (snd (only 1 two_loggers)))) 2 3"
proof -
  have o: "only_ref (snd (only 1 two_loggers)) = Some 1"
    by (simp add: only_def two_loggers_vars)
  have h: "heap (snd (only 1 two_loggers)) 2 =
      Some \<lparr>lg_name = ''b'', lg_enabled = True, lg_stream = 0, lg_level = 1\<rparr>"
    by (simp add: only_def two_loggers_vars two_loggers_heap)
  have n: "(2::nat) \<noteq> 1" by simp
  show ?thesis
    using exclusivity_silences_others [OF o n, of 3 "Some 3" "JStr ''x''" 5 "[]" 2] o h
    by auto
qed

section \<open>Writing\<close>




text \<open>
  C7. For every logger, \<open>pipe(newStream)\<close> returns its argument and calls no stream.
  When \<open>newStream\<close> differs from the current stream, then after any run of operations
  that does not pipe this logger again its stream is \<open>newStream\<close>: a \<open>write\<close> of the
  logger that passes the filter is one call on \<open>newStream\<close>, carrying the logger's
  name, and adds no call to the stream attached before.
\<close>

theorem pipe_redirects:
  assumes "wf_state s" and "heap s L = Some l" and "lg_stream l \<noteq> new"
    and "\<forall>x\<in>set xs. \<forall>st. x \<noteq> Pipe L st"
  shows "fst (pipe L new s) = new \<and>
         sink_calls (snd (pipe L new s)) = sink_calls s \<and>
         (\<exists>l'. heap (run xs (snd (pipe L new s))) L = Some l' \<and> lg_stream l' = new) \<and>
         sink_calls (snd (logger_write L lv d now (run xs (snd (pipe L new s))))) =
           sink_calls (run xs (snd (pipe L new s))) @
             (if isEnabled (run xs (snd (pipe L new s))) L (level_or_info lv)
              then [(new, createPayload (lg_name l) (level_or_info lv) d now)] else []) \<and>
         filter (\<lambda>c. fst c = lg_stream l)
             (sink_calls (snd (logger_write L lv d now (run xs (snd (pipe L new s)))))) =
           filter (\<lambda>c. fst c = lg_stream l) (sink_calls (run xs (snd (pipe L new s))))"
proof -
  let ?s1 = "snd (pipe L new s)"
  have wf1: "wf_state ?s1"
    using wf_state_step [OF assms(1), of "Pipe L new"] by simp
  have h1: "heap ?s1 L = Some (l\<lparr>lg_stream := new\<rparr>)"
    using assms(2,3) by (simp add: pipe_def update_logger_def)
  from run_keeps_stream [OF wf1 h1 assms(4)]
  obtain l' where l': "heap (run xs ?s1) L = Some l'" "lg_stream l' = new"
    "lg_name l' = lg_name l" by auto
  have calls: "sink_calls ?s1 = sink_calls s"
    using assms(2) by (simp add: pipe_def update_logger_def)
  show ?thesis
    using l' calls assms(3) by (simp add: pipe_def logger_write_def Let_def)
qed

theorem pipe_redirects_witness:
  "fst (pipe 1 7 two_loggers) = 7 \<and>
   sink_calls (snd (logger_write 1 (Some 2) (JStr ''y'') 20
      (run [Write 1 (Some 3) (JStr ''x'') 10, Level 1 1] (snd (pipe 1 7 two_loggers))))) =
     [(7, createPayload ''a'' 3 (JStr ''x'') 10), (7, createPayload ''a'' 2 (JStr ''y'') 20)]"
proof -
  let ?xs = "[Write 1 (Some 3) (JStr ''x'') 10, Level 1 1]"
  have d: "lg_stream \<lparr>lg_name = ''a'', lg_enabled = True, lg_stream = 1, lg_level = 2\<rparr> \<noteq> 7"
    by simp
  have np: "\<forall>x\<in>set ?xs. \<forall>st. x \<noteq> Pipe 1 st"
    by simp
  have calls: "sink_calls (run ?xs (snd (pipe 1 7 two_loggers))) =
      [(7, createPayload ''a'' 3 (JStr ''x'') 10)]"
    by (simp add: method_defs isEnabled_def level_or_info_def two_loggers_heap two_loggers_vars)
  have on: "isEnabled (run ?xs (snd (pipe 1 7 two_loggers))) 1 (level_or_info (Some 2))"
    by (simp add: method_defs isEnabled_def level_or_info_def two_loggers_heap two_loggers_vars)
  have lv: "level_or_info (Some 2) = 2"
    by (simp add: level_or_info_def)
  show ?thesis
    using pipe_redirects [OF wf_two_loggers two_loggers_heap(2) d np, of "Some 2" "JStr ''y''" 20]
      calls on lv
    by simp
qed

text \<open>
  C8. For every logger and every argument sequence, the method of each entry
  \<open>(key, rank)\<close> of the level mapping is \<open>write(rank, arguments)\<close>: when the
  filter passes, the one payload it emits has the rank as level and the whole argument
  sequence, in order, as data, and the method returns the logger unless that call on
  the stream raises. So \<open>warn('x', 'y')\<close> emits data \<open>['x', 'y']\<close>.
\<close>

theorem level_method_forwards_arguments:
  assumes "(key, rank) \<in> set levels" and "heap s L = Some l"
  shows "level_method key L args now s =
           Some (logger_write L (Some rank) (JArguments args) now s) \<and>
         level_method key L args now s =
           Some (if isEnabled s L rank \<and>
                    stream_raises s (lg_stream l)
                      [(''date'', JNum now), (''level'', JNum rank),
                       (''name'', JStr (lg_name l)), (''data'', JArguments args)]
                 then Inl StreamWriteRaised else Inr L,
                 if isEnabled s L rank
                 then s\<lparr>sink_calls := sink_calls s @
                        [(lg_stream l,
                          [(''date'', JNum now), (''level'', JNum rank),
                           (''name'', JStr (lg_name l)), (''data'', JArguments args)])]\<rparr>
                 else s)"
  using levels_lookup [OF assms(1)] assms(2)
  by (simp add: level_method_def logger_write_def level_or_info_def createPayload_def Let_def)

theorem level_method_forwards_arguments_witness:
  "(''warn'', 2) \<in> set levels \<and>
   level_method ''warn'' 1 [JStr ''x'', JStr ''y''] 1000 two_loggers =
     Some (Inr 1, two_loggers\<lparr>sink_calls :=
                [(1, [(''date'', JNum 1000), (''level'', JNum 2), (''name'', JStr ''a''),
                      (''data'', JArguments [JStr ''x'', JStr ''y''])])]\<rparr>)"
proof -
  have k: "(''warn'', 2) \<in> set levels"
    by (simp add: levels_def)
  have on: "isEnabled two_loggers 1 2"
    by (simp add: isEnabled_def two_loggers_heap two_loggers_vars)
  show ?thesis
    using conjunct2 [OF level_method_forwards_arguments
      [OF k two_loggers_heap(2), of "[JStr ''x'', JStr ''y'']" 1000]]
      k on two_loggers_vars(3) two_loggers_vars(9)
    by simp
qed

text \<open>
  C9, as the code has it. For every logger, level and data value, \<open>write(level, data)\<close>
  returns the logger itself whenever the filtering decision is false or the call on
  the stream returns; an exception raised by that call leaves \<open>write\<close>, which then
  returns nothing. When the filtering decision is false, \<open>write\<close> raises no
  exception, calls no stream and leaves the state of the module, and so every logger
  and every sink, as it was.
\<close>

theorem write_returns_logger:
  "(\<not> isEnabled s L (level_or_info lv) \<longrightarrow> logger_write L lv d now s = (Inr L, s)) \<and>
   (\<forall>l. heap s L = Some l \<longrightarrow>
      fst (logger_write L lv d now s) =
        (if isEnabled s L (level_or_info lv) \<and>
            stream_raises s (lg_stream l)
              (createPayload (lg_name l) (level_or_info lv) d now)
         then Inl StreamWriteRaised else Inr L))"
  by (simp add: logger_write_def Let_def)

theorem write_returns_logger_witness:
  "\<not> isEnabled two_loggers_raising 0 (level_or_info None) \<and>
   logger_write 0 None (JStr ''x'') 5 two_loggers_raising = (Inr 0, two_loggers_raising) \<and>
   isEnabled two_loggers_raising 2 (level_or_info (Some 3)) \<and>
   fst (logger_write 2 (Some 3) (JStr ''x'') 5 two_loggers_raising) = Inr 2"
proof -
  have off: "\<not> isEnabled two_loggers_raising 0 (level_or_info None)"
    by (simp add: isEnabled_def two_loggers_raising_facts two_loggers_heap)
  have on: "isEnabled two_loggers_raising 2 (level_or_info (Some 3))"
    by (simp add: isEnabled_def level_or_info_def two_loggers_raising_facts two_loggers_heap)
  have h: "heap two_loggers_raising 2 =
      Some \<lparr>lg_name = ''b'', lg_enabled = True, lg_stream = 0, lg_level = 1\<rparr>"
    by (simp add: two_loggers_raising_facts two_loggers_heap)
  have acc: "\<not> stream_raises two_loggers_raising 0 p" for p
    by (simp add: two_loggers_raising_facts stream_one_raises_def)
  show ?thesis
    using write_returns_logger [of two_loggers_raising 0 None "JStr ''x''" 5]
      write_returns_logger [of two_loggers_raising 2 "Some 3" "JStr ''x''" 5]
      off on h acc
    by simp
qed

text \<open>
  With \<open>a\<close> enabled on a stream whose \<open>write\<close> raises, \<open>a.write(2, 'x')\<close> makes
  the call and does not return the logger.
\<close>

theorem write_raises_counterexample:
  "isEnabled two_loggers_raising 1 (level_or_info (Some 2)) \<and>
   fst (logger_write 1 (Some 2) (JStr ''x'') 5 two_loggers_raising) = Inl StreamWriteRaised \<and>
   fst (logger_write 1 (Some 2) (JStr ''x'') 5 two_loggers_raising) \<noteq> Inr 1 \<and>
   sink_calls (snd (logger_write 1 (Some 2) (JStr ''x'') 5 two_loggers_raising)) =
     [(1, createPayload ''a'' 2 (JStr ''x'') 5)]"
  by (simp add: logger_write_def isEnabled_def level_or_info_def levels_info_def
      two_loggers_raising_facts two_loggers_heap stream_one_raises_def)

section \<open>Loggers are created disabled\<close>

text \<open>
  C10. In Variant B \<open>defaultEnabled\<close> is false, and a Logger created
  without an \<open>enabled\<close> option takes it as its enabled flag. So, while the
  process-wide enabledAll flag is unset, a freshly created logger emits nothing at
  any level through any run of operations that contains neither its own \<open>enable()\<close>
  nor an \<open>enableAll()\<close>. With the exclusivity reference unset, either call makes it
  emit at every level from its threshold up.
\<close>

theorem default_disabled_until_enabled:
  assumes "wf_state s" and "loggers s n = None" and "\<not> enableAll_flag s"
    and "case opts of None \<Rightarrow> True | Some given \<Rightarrow> opt_enabled given = None"
    and "create n opts s = (L, s1)"
    and "\<forall>x\<in>set xs. x \<noteq> Enable L \<and> (\<forall>r. x \<noteq> EnableAll r)"
  shows "defaultEnabled = False \<and>
         (\<exists>l. heap s1 L = Some l \<and> lg_enabled l = defaultEnabled \<and>
            (only_ref s = None \<longrightarrow>
               (isEnabled (snd (enable L s1)) L v \<longleftrightarrow> lg_level l \<le> v) \<and>
               (isEnabled (snd (enableAll X s1)) L v \<longleftrightarrow> lg_level l \<le> v))) \<and>
         \<not> isEnabled (run xs s1) L v \<and>
         logger_write L lv d now (run xs s1) = (Inr L, run xs s1)"
proof -
  have s1: "s1 = step (Create n opts) s"
    using assms(5) by simp
  have wf1: "wf_state s1"
    unfolding s1 by (rule wf_state_step [OF assms(1)])
  obtain l where l: "heap s1 L = Some l" "\<not> lg_enabled l"
    using assms(2,4,5)
    by (auto simp add: create_def Logger_def Let_def defaultEnabled_def split: option.splits)
  have e1: "\<not> enableAll_flag s1"
    using assms(2,3,5) by (auto simp add: create_def Logger_def Let_def)
  have o1: "only_ref s1 = only_ref s"
    using assms(2,5) by (auto simp add: create_def Logger_def Let_def)
  from run_keeps_disabled [OF wf1 l e1 assms(6)]
  obtain l' where l': "heap (run xs s1) L = Some l'" "\<not> lg_enabled l'"
    "\<not> enableAll_flag (run xs s1)" by auto
  have off: "\<And>w. \<not> isEnabled (run xs s1) L w"
    using l' by (simp add: isEnabled_def)
  have on: "only_ref s = None \<longrightarrow>
      (isEnabled (snd (enable L s1)) L v \<longleftrightarrow> lg_level l \<le> v) \<and>
      (isEnabled (snd (enableAll X s1)) L v \<longleftrightarrow> lg_level l \<le> v)"
    using l o1 by (simp add: isEnabled_def enable_def enableAll_def update_logger_def)
  show ?thesis
    using l off on by (auto simp add: defaultEnabled_def logger_write_def Let_def)
qed

theorem default_disabled_until_enabled_witness:
  "create ''svc'' None two_loggers = (3, snd (create ''svc'' None two_loggers)) \<and>
   \<not> isEnabled (run [Level 3 0, DisableAll 3, Enable 1, Only 3]
        (snd (create ''svc'' None two_loggers))) 3 3 \<and>
   logger_write 3 (Some 3) (JStr ''x'') 9
       (run [Level 3 0, DisableAll 3, Enable 1, Only 3] (snd (create ''svc'' None two_loggers))) =
     (Inr 3, run [Level 3 0, DisableAll 3, Enable 1, Only 3]
        (snd (create ''svc'' None two_loggers)))"
proof -
  let ?xs = "[Level 3 0, DisableAll 3, Enable 1, Only 3]"
  have c: "create ''svc'' None two_loggers = (3, snd (create ''svc'' None two_loggers))"
    by (simp add: create_def Logger_def Let_def two_loggers_vars)
  have e: "\<not> enableAll_flag two_loggers"
    by (simp add: two_loggers_vars)
  have o: "case None :: options option of None \<Rightarrow> True | Some given \<Rightarrow> opt_enabled given = None"
    by simp
  have ne: "\<forall>x\<in>set ?xs. x \<noteq> Enable 3 \<and> (\<forall>r. x \<noteq> EnableAll r)"
    by simp
  show ?thesis
    using default_disabled_until_enabled
      [OF wf_two_loggers two_loggers_vars(8) e o c ne, of 3 0 "Some 3" "JStr ''x''" 9] c
    by simp
qed

end
